theory Spec2Isabelle
  imports Main "HOL-Library.Sublist"
begin

section \<open>confy: a caching configuration client over Vault\<close>

text \<open>
  A shallow embedding of \<^verbatim>\<open>confy.go\<close>. The Go code reads the process environment,
  a TTL cache (the ttlcache library) and a Vault key-value store. Each of them is made
  explicit here: the environment and the store are fields of a \<open>world\<close> record that every
  call receives, the cache is a field of the client, and every call the client makes on
  its two collaborators (the cache and the Vault client) is appended to a list, so that
  "was not invoked" and "exactly once" are statements about that list.
\<close>

subsection \<open>Raw values and documents\<close>

text \<open>
  Go's \<^verbatim>\<open>any\<close>, restricted to the dynamic types that a JSON document decoded by the
  Vault client can hold: string, bool, \<^verbatim>\<open>json.Number\<close> (a string type),
  \<^verbatim>\<open>map[string]any\<close>, \<^verbatim>\<open>[]any\<close> and nil. A nil map reads like an empty one.
\<close>

datatype any =
    AString string
  | ABool bool
  | ANumber string
  | AMap "string \<Rightarrow> any option"
  | ASlice "any list"
  | ANil

type_synonym document = "string \<Rightarrow> any option"

text \<open>\<^verbatim>\<open>type value struct { val any }\<close>\<close>

record valueT =
  val :: any

subsection \<open>Errors\<close>

text \<open>
  The three places where \<^verbatim>\<open>Get\<close> builds an error: line 157 (wrapping the cause that
  the Vault client returned, kept as its message), line 205 and line 213.
\<close>

datatype error =
    VaultError string
  | NoValueFound
  | FieldNotFound string string

definition apostrophe :: char where
  "apostrophe = CHR 0x27"

text \<open>The message of each error, as its format string builds it.\<close>

fun Error :: "error \<Rightarrow> string" where
  "Error (VaultError cause) = ''could not get secret from Vault: '' @ cause"
| "Error NoValueFound = ''no value found''"
| "Error (FieldNotFound fieldName path) =
     ''field '' @ [apostrophe] @ fieldName @ [apostrophe] @ '' on path '' @
     [apostrophe] @ path @ [apostrophe] @ '' was not found''"

subsection \<open>Durations\<close>

text \<open>
  \<^verbatim>\<open>time.Duration\<close> is an int64 count of nanoseconds. \<^verbatim>\<open>New\<close> only compares
  durations, so they are integers here.
\<close>

type_synonym duration = int

definition Second :: duration where
  "Second = 1000000000"

definition Minute :: duration where
  "Minute = 60 * Second"

definition DefaultCacheTTL :: duration where
  "DefaultCacheTTL = 5 * Minute"

definition MinimumCacheTTL :: duration where
  "MinimumCacheTTL = 30 * Second"

subsection \<open>The client and its surroundings\<close>

text \<open>The calls the client makes on the cache and on the Vault client.\<close>

datatype call =
    CacheStart
  | CacheGet string
  | CacheSet string
  | CacheStop
  | KVGet string
  | ClientClose

text \<open>
  \<^verbatim>\<open>confyImpl\<close>. The field \<open>cache\<close> holds the entries of the ttlcache; whether an entry
  has expired at the time of a call is decided by the library's clock and is an input
  (\<open>expired\<close> below). The \<^verbatim>\<open>client\<close> field of the Go struct is the handle of the Vault
  client: what the store answers is in the \<open>world\<close>, and the calls made on the handle
  are in \<open>calls\<close>, which is not a field of the Go struct.
\<close>

record confyImpl =
  cache :: "string \<Rightarrow> document option"
  envOverride :: bool
  ttl :: duration
  closed :: bool
  calls :: "call list"

text \<open>
  What a call of \<^verbatim>\<open>Get\<close> finds outside the client: \<open>getenv\<close> is \<^verbatim>\<open>os.Getenv\<close> (the
  empty string for an unset variable), \<open>kvGet k\<close> is the outcome of
  \<^verbatim>\<open>c.RawClient().KVv1("secret").Get(ctx, k)\<close> (the message of its error, or the data
  of the secret), \<open>expired k\<close> tells whether the cache entry under \<open>k\<close> is past its TTL,
  and \<open>unicodeUpper\<close> is the Unicode case mapping that \<^verbatim>\<open>strings.ToUpper\<close> applies to
  a string with a byte outside ASCII.
\<close>

record world =
  getenv :: "string \<Rightarrow> string"
  kvGet :: "string \<Rightarrow> string + document"
  expired :: "string \<Rightarrow> bool"
  unicodeUpper :: "string \<Rightarrow> string"

subsection \<open>Construction\<close>

text \<open>
  \<^verbatim>\<open>new\<close> builds the client around an empty cache and starts the cache's expiration
  (line 149). \<^verbatim>\<open>New\<close> adjusts the requested TTL first. The Vault client that the Go
  functions receive is not a parameter: see \<open>world\<close>.
\<close>

definition new :: "duration \<Rightarrow> bool \<Rightarrow> confyImpl" where
  "new cacheTTL envOverride' =
     \<lparr>cache = Map.empty, envOverride = envOverride', ttl = cacheTTL, closed = False,
      calls = [CacheStart]\<rparr>"

definition New :: "duration \<Rightarrow> bool \<Rightarrow> confyImpl" where
  "New cacheTTL envOverride' =
     (let cacheTTL1 = (if cacheTTL = 0 then DefaultCacheTTL else cacheTTL);
          cacheTTL2 = (if cacheTTL1 < MinimumCacheTTL then MinimumCacheTTL else cacheTTL1)
      in new cacheTTL2 envOverride')"

subsection \<open>Strings\<close>

text \<open>\<^verbatim>\<open>strings.TrimPrefix(s, prefix)\<close>\<close>

definition TrimPrefix :: "string \<Rightarrow> string \<Rightarrow> string" where
  "TrimPrefix s pre = (if prefix pre s then drop (length pre) s else s)"

text \<open>
  \<^verbatim>\<open>strings.SplitN(s, sep, n)\<close> for a separator of one byte and \<open>n \<ge> 0\<close>: at most
  \<open>n\<close> parts, the last one the unsplit remainder.
\<close>

fun SplitN :: "string \<Rightarrow> char \<Rightarrow> nat \<Rightarrow> string list" where
  "SplitN s sep 0 = []"
| "SplitN s sep (Suc 0) = [s]"
| "SplitN s sep (Suc (Suc n)) =
     (if sep \<in> set s
      then takeWhile (\<lambda>x. x \<noteq> sep) s # SplitN (tl (dropWhile (\<lambda>x. x \<noteq> sep) s)) sep (Suc n)
      else [s])"

text \<open>\<^verbatim>\<open>replacer = strings.NewReplacer("/", "_", "#", "_")\<close>, and its \<^verbatim>\<open>Replace\<close>.\<close>

definition replacer_Replace :: "string \<Rightarrow> string" where
  "replacer_Replace s =
     map (\<lambda>x. if x = CHR ''/'' then CHR ''_'' else if x = CHR ''#'' then CHR ''_'' else x) s"

text \<open>
  \<^verbatim>\<open>strings.ToUpper\<close>: a string of ASCII bytes has its letters \<open>a\<close> to \<open>z\<close> moved to
  \<open>A\<close> to \<open>Z\<close>; any other string goes through the Unicode case mapping, which is the
  parameter \<open>uni\<close>.
\<close>

definition isASCII :: "string \<Rightarrow> bool" where
  "isASCII s = list_all (\<lambda>x. (of_char x :: nat) < 128) s"

definition upperASCII :: "char \<Rightarrow> char" where
  "upperASCII x =
     (let n = (of_char x :: nat) in if 97 \<le> n \<and> n \<le> 122 then char_of (n - 32) else x)"

definition ToUpper :: "(string \<Rightarrow> string) \<Rightarrow> string \<Rightarrow> string" where
  "ToUpper uni s = (if isASCII s then map upperASCII s else uni s)"

subsection \<open>Close\<close>

definition Close :: "confyImpl \<Rightarrow> confyImpl" where
  "Close c =
     (if \<not> closed c
      then c\<lparr>closed := True, calls := calls c @ [CacheStop, ClientClose]\<rparr>
      else c)"

subsection \<open>Get\<close>

text \<open>
  The loader of \<^verbatim>\<open>createLoader\<close>, run on a cache miss: it returns the item (or nil),
  the content of the error bucket \<^verbatim>\<open>*e\<close> (nil before the call), and the client with
  its cache updated. Every \<^verbatim>\<open>Get\<close> builds a loader of its own, with a suppression
  group of its own, so the function given to the group always runs.
\<close>

definition createLoader ::
  "world \<Rightarrow> confyImpl \<Rightarrow> string \<Rightarrow> (document option \<times> error option) \<times> confyImpl" where
  "createLoader w c key =
     (case kvGet w key of
        Inl err \<Rightarrow> ((None, Some (VaultError err)), c\<lparr>calls := calls c @ [KVGet key]\<rparr>)
      | Inr data \<Rightarrow>
          ((Some data, None),
           c\<lparr>cache := (cache c)(key \<mapsto> data), calls := calls c @ [KVGet key, CacheSet key]\<rparr>))"

text \<open>
  \<^verbatim>\<open>c.cache.Get(path, ttlcache.WithLoader(loader))\<close>: the entry when there is one that
  has not expired, the loader's result otherwise.
\<close>

definition cache_Get ::
  "confyImpl \<Rightarrow> world \<Rightarrow> string \<Rightarrow> (document option \<times> error option) \<times> confyImpl" where
  "cache_Get c w key =
     (let c1 = c\<lparr>calls := calls c @ [CacheGet key]\<rparr>
      in case (if expired w key then None else cache c key) of
           Some item \<Rightarrow> ((Some item, None), c1)
         | None \<Rightarrow> createLoader w c1 key)"

text \<open>
  Lines 191 to 196: the document key \<^verbatim>\<open>parts[0]\<close> and the field name, which is
  \<^verbatim>\<open>parts[1]\<close> when there is a second part and the empty string otherwise.
\<close>

definition splitField :: "string \<Rightarrow> string \<times> string" where
  "splitField path =
     (let parts = SplitN path (CHR ''#'') 2
      in (parts ! 0, if length parts > 1 then parts ! 1 else []))"

text \<open>
  \<^verbatim>\<open>Get\<close> returns the pair (Value, error) of the Go function as a sum, and the client
  after the call. The context \<^verbatim>\<open>ctx\<close> only reaches the request to Vault, whose outcome
  is \<open>kvGet w\<close>.
\<close>

definition Get :: "confyImpl \<Rightarrow> world \<Rightarrow> string \<Rightarrow> (error + valueT) \<times> confyImpl" where
  "Get c w path0 =
     (let path = TrimPrefix path0 ''secret/'';
          envKey = ToUpper (unicodeUpper w) (replacer_Replace path);
          envValue = getenv w envKey
      in if envOverride c \<and> envValue \<noteq> [] then (Inr \<lparr>val = AString envValue\<rparr>, c)
         else
           let (path1, fieldName) = splitField path;
               ((v, errBucket), c1) = cache_Get c w path1
           in case v of
                None \<Rightarrow>
                  (case errBucket of
                     Some e \<Rightarrow> (Inl e, c1)
                   | None \<Rightarrow> (Inl NoValueFound, c1))
              | Some d \<Rightarrow>
                  if fieldName \<noteq> [] then
                    (case d fieldName of
                       Some f \<Rightarrow> (Inr \<lparr>val = f\<rparr>, c1)
                     | None \<Rightarrow> (Inl (FieldNotFound fieldName path1), c1))
                  else (Inr \<lparr>val = AMap d\<rparr>, c1))"

definition GetOrDefault ::
  "confyImpl \<Rightarrow> world \<Rightarrow> string \<Rightarrow> string \<Rightarrow> (valueT \<times> bool) \<times> confyImpl" where
  "GetOrDefault c w path fallback =
     (case Get c w path of
        (Inl err, c1) \<Rightarrow> ((\<lparr>val = AString fallback\<rparr>, False), c1)
      | (Inr v, c1) \<Rightarrow> ((v, True), c1))"

subsection \<open>Value\<close>

definition Raw :: "valueT \<Rightarrow> any" where
  "Raw v = val v"

text \<open>
  \<^verbatim>\<open>String\<close>: a string is returned as it is; any other raw value is printed by
  \<^verbatim>\<open>fmt.Sprintf("%s", v.val)\<close>, which is the parameter \<open>sprintf\<close>.
\<close>

definition String :: "(any \<Rightarrow> string) \<Rightarrow> valueT \<Rightarrow> string" where
  "String sprintf v = (case val v of AString s \<Rightarrow> s | x \<Rightarrow> sprintf x)"

text \<open>
  \<^verbatim>\<open>m, ok := v.val.(map[string]any)\<close>: a failed type assertion leaves the nil map.
\<close>

definition Data :: "valueT \<Rightarrow> document \<times> bool" where
  "Data v = (case val v of AMap m \<Rightarrow> (m, True) | _ \<Rightarrow> (Map.empty, False))"

subsection \<open>Watch\<close>

text \<open>
  The state of the polling goroutine: the baseline \<^verbatim>\<open>oldValue\<close>, the values the
  callback has been invoked with (oldest first), whether the loop has left through
  \<^verbatim>\<open>break OuterLoop\<close>, and the client, which the goroutine shares.
\<close>

record watch =
  oldValue :: valueT
  fired :: "valueT list"
  stopped :: bool
  client :: confyImpl

text \<open>Lines 360 to 363: the first baseline.\<close>

definition Watch_init :: "confyImpl \<Rightarrow> world \<Rightarrow> string \<Rightarrow> watch" where
  "Watch_init c w path =
     (case Get c w path of
        (Inl err, c1) \<Rightarrow>
          \<lparr>oldValue = \<lparr>val = AString []\<rparr>, fired = [], stopped = False, client = c1\<rparr>
      | (Inr v, c1) \<Rightarrow> \<lparr>oldValue = v, fired = [], stopped = False, client = c1\<rparr>)"

text \<open>
  Lines 367 to 375, the body of the timer case of the \<^verbatim>\<open>select\<close>. The \<^verbatim>\<open>break\<close>
  of line 370 leaves the \<^verbatim>\<open>select\<close>, not the \<^verbatim>\<open>for\<close>.
\<close>

definition Watch_tick ::
  "(valueT \<Rightarrow> valueT \<Rightarrow> bool) \<Rightarrow> string \<Rightarrow> world \<Rightarrow> watch \<Rightarrow> watch" where
  "Watch_tick comparator path w s =
     (case Get (client s) w path of
        (Inl err, c1) \<Rightarrow> s\<lparr>client := c1\<rparr>
      | (Inr newValue, c1) \<Rightarrow>
          s\<lparr>oldValue := newValue,
            fired := (if comparator (oldValue s) newValue then fired s @ [newValue] else fired s),
            client := c1\<rparr>)"

text \<open>
  What the \<^verbatim>\<open>select\<close> receives: the timer (with the world as it is at that moment),
  or the stop signal.
\<close>

datatype event = TimeAfter world | StopChan

text \<open>
  The \<^verbatim>\<open>for\<close> loop of lines 365 to 379, run on the events that have arrived so far.
  The loop only leaves on the stop signal.
\<close>

fun Watch_loop ::
  "(valueT \<Rightarrow> valueT \<Rightarrow> bool) \<Rightarrow> string \<Rightarrow> event list \<Rightarrow> watch \<Rightarrow> watch" where
  "Watch_loop comparator path [] s = s"
| "Watch_loop comparator path (StopChan # es) s = s\<lparr>stopped := True\<rparr>"
| "Watch_loop comparator path (TimeAfter w # es) s =
     Watch_loop comparator path es (Watch_tick comparator path w s)"

text \<open>
  \<^verbatim>\<open>Watch\<close>, as the state of its goroutine after the events that have arrived: \<open>w0\<close>
  is the world at the first \<^verbatim>\<open>Get\<close>. The interval of the timer, \<^verbatim>\<open>c.ttl\<close> plus a
  second, is real time and is not part of the model.
\<close>

definition Watch ::
  "confyImpl \<Rightarrow> world \<Rightarrow> string \<Rightarrow> (valueT \<Rightarrow> valueT \<Rightarrow> bool) \<Rightarrow> event list \<Rightarrow> watch" where
  "Watch c w0 path comparator es = Watch_loop comparator path es (Watch_init c w0 path)"

subsection \<open>A store and an environment to run the client on\<close>

text \<open>
  The documents that the tests read, \<^verbatim>\<open>secret/test/app\<close> and \<^verbatim>\<open>secret/test/types\<close>,
  with the fields the tests name: \<open>m\<close> is a field whose value is a JSON object, \<open>l\<close> one
  whose value is an array.
\<close>

definition test_app :: document where
  "test_app = [''user'' \<mapsto> AString ''fake-user'', ''password'' \<mapsto> AString ''fake-password'']"

definition test_app_changed :: document where
  "test_app_changed =
     [''user'' \<mapsto> AString ''fake-user'', ''password'' \<mapsto> AString ''password is changed'']"

definition test_types :: document where
  "test_types =
     [''s'' \<mapsto> AString ''a string'',
      ''i'' \<mapsto> ANumber ''9'',
      ''b'' \<mapsto> ABool True,
      ''m'' \<mapsto> AMap [''three'' \<mapsto> AString ''tres''],
      ''l'' \<mapsto> ASlice [AString ''one'', AString ''two'', AString ''three'']]"

text \<open>Vault as the tests set it up; no variable of the environment is set.\<close>

definition test_vault :: "string \<Rightarrow> string + document" where
  "test_vault k =
     (if k = ''test/app'' then Inr test_app
      else if k = ''test/types'' then Inr test_types
      else Inl ''secret not found'')"

definition test_world :: world where
  "test_world =
     \<lparr>getenv = (\<lambda>k. []), kvGet = test_vault, expired = (\<lambda>k. False),
      unicodeUpper = (\<lambda>s. s)\<rparr>"

text \<open>The same with every cache entry expired and the password changed in Vault.\<close>

definition changed_world :: world where
  "changed_world =
     \<lparr>getenv = (\<lambda>k. []),
      kvGet = (\<lambda>k. if k = ''test/app'' then Inr test_app_changed else Inl ''secret not found''),
      expired = (\<lambda>k. True), unicodeUpper = (\<lambda>s. s)\<rparr>"

text \<open>
  Vault out of reach and every cache entry expired, with \<^verbatim>\<open>TEST_APP_USER\<close> set as
  \<^verbatim>\<open>TestConfyWithOverride\<close> sets it.
\<close>

definition vault_down :: world where
  "vault_down =
     \<lparr>getenv = (\<lambda>k. if k = ''TEST_APP_USER'' then ''some-other-user'' else []),
      kvGet = (\<lambda>k. Inl ''connection refused''), expired = (\<lambda>k. True),
      unicodeUpper = (\<lambda>s. s)\<rparr>"

text \<open>The test store, with the variable \<^verbatim>\<open>TEST_APP_\<close> set.\<close>

definition env_world :: world where
  "env_world =
     \<lparr>getenv = (\<lambda>k. if k = ''TEST_APP_'' then ''from-env'' else []),
      kvGet = test_vault, expired = (\<lambda>k. False), unicodeUpper = (\<lambda>s. s)\<rparr>"

text \<open>
  The comparator of \<^verbatim>\<open>TestConfyWatch\<close>: \<^verbatim>\<open>oldVal.String() != newVal.String()\<close>,
  with a printer that is not consulted on strings.
\<close>

definition differs :: "valueT \<Rightarrow> valueT \<Rightarrow> bool" where
  "differs oldVal newVal = (String (\<lambda>x. []) oldVal \<noteq> String (\<lambda>x. []) newVal)"

section \<open>Theorems\<close>

subsection \<open>Facts about the string functions\<close>

lemma TrimPrefix_append: "TrimPrefix (pre @ p) pre = p"
  by (simp add: TrimPrefix_def)

lemma TrimPrefix_no_prefix: "\<not> prefix pre p \<Longrightarrow> TrimPrefix p pre = p"
  by (simp add: TrimPrefix_def)

lemma takeWhile_first: "sep \<notin> set X \<Longrightarrow> takeWhile (\<lambda>x. x \<noteq> sep) (X @ sep # Y) = X"
  by (induction X) auto

lemma dropWhile_first: "sep \<notin> set X \<Longrightarrow> dropWhile (\<lambda>x. x \<noteq> sep) (X @ sep # Y) = sep # Y"
  by (induction X) auto

lemma SplitN_2_absent: "sep \<notin> set s \<Longrightarrow> SplitN s sep 2 = [s]"
  by (simp add: numeral_2_eq_2)

lemma SplitN_2_first: "sep \<notin> set X \<Longrightarrow> SplitN (X @ sep # Y) sep 2 = [X, Y]"
  by (simp add: numeral_2_eq_2 takeWhile_first dropWhile_first)

lemma SplitN_2_length: "length (SplitN s sep 2) = (if sep \<in> set s then 2 else 1)"
  by (simp add: numeral_2_eq_2)

lemma splitField_absent: "CHR ''#'' \<notin> set p \<Longrightarrow> splitField p = (p, [])"
  by (simp add: splitField_def SplitN_2_absent)

lemma splitField_first: "CHR ''#'' \<notin> set X \<Longrightarrow> splitField (X @ CHR ''#'' # Y) = (X, Y)"
  by (simp add: splitField_def SplitN_2_first)

text \<open>
  A leading \<^verbatim>\<open>secret/\<close> of a path lies before its first \<open>#\<close>, so line 182 removes it
  from the document key and leaves the field name alone.
\<close>

lemma prefix_before_sep:
  assumes "sep \<notin> set pre"
  shows "prefix pre (X @ sep # Y) = prefix pre X"
proof
  assume "prefix pre (X @ sep # Y)"
  then consider "prefix pre X" | us where "pre = X @ us" "prefix us (sep # Y)"
    by (auto simp add: prefix_append)
  then show "prefix pre X"
  proof cases
    case 1
    then show ?thesis .
  next
    case 2
    with assms have "us = []" by (cases us) auto
    with 2 show ?thesis by simp
  qed
next
  assume "prefix pre X"
  then show "prefix pre (X @ sep # Y)" by (simp add: prefix_prefix)
qed

lemma splitField_TrimPrefix:
  assumes "CHR ''#'' \<notin> set X"
  shows "splitField (TrimPrefix (X @ CHR ''#'' # Y) ''secret/'') = (TrimPrefix X ''secret/'', Y)"
proof -
  have p: "prefix ''secret/'' (X @ CHR ''#'' # Y) = prefix ''secret/'' X"
    by (rule prefix_before_sep) simp
  show ?thesis
  proof (cases "prefix ''secret/'' X")
    case True
    then obtain X' where X: "X = ''secret/'' @ X'" by (auto simp add: prefix_def)
    with assms have "CHR ''#'' \<notin> set X'" by simp
    then have "splitField (X' @ CHR ''#'' # Y) = (X', Y)" by (rule splitField_first)
    moreover have "TrimPrefix (X @ CHR ''#'' # Y) ''secret/'' = X' @ CHR ''#'' # Y"
      using TrimPrefix_append [of "''secret/''" "X' @ CHR ''#'' # Y"] X by simp
    moreover have "TrimPrefix X ''secret/'' = X'"
      using TrimPrefix_append [of "''secret/''" X'] X by simp
    ultimately show ?thesis by simp
  next
    case False
    with p have "TrimPrefix (X @ CHR ''#'' # Y) ''secret/'' = X @ CHR ''#'' # Y"
      and "TrimPrefix X ''secret/'' = X"
      by (simp_all add: TrimPrefix_def)
    with assms show ?thesis by (simp add: splitField_first)
  qed
qed

subsection \<open>Facts about the cache\<close>

lemma cache_Get_hit:
  "\<not> expired w key \<Longrightarrow> cache c key = Some d \<Longrightarrow>
   cache_Get c w key = ((Some d, None), c\<lparr>calls := calls c @ [CacheGet key]\<rparr>)"
  by (simp add: cache_Get_def)

lemma cache_Get_load:
  "expired w key \<or> cache c key = None \<Longrightarrow> kvGet w key = Inr d \<Longrightarrow>
   cache_Get c w key =
     ((Some d, None),
      c\<lparr>cache := (cache c)(key \<mapsto> d),
        calls := calls c @ [CacheGet key, KVGet key, CacheSet key]\<rparr>)"
  by (auto simp add: cache_Get_def createLoader_def)

lemma cache_Get_fail:
  "expired w key \<or> cache c key = None \<Longrightarrow> kvGet w key = Inl e \<Longrightarrow>
   cache_Get c w key =
     ((None, Some (VaultError e)), c\<lparr>calls := calls c @ [CacheGet key, KVGet key]\<rparr>)"
  by (auto simp add: cache_Get_def createLoader_def)

text \<open>The item and the error bucket are never both nil: line 205 is not reached.\<close>

lemma cache_Get_not_both_nil: "fst (cache_Get c w key) \<noteq> (None, None)"
  by (auto simp add: cache_Get_def createLoader_def Let_def split: option.splits sum.splits)

lemma New_fields:
  "cache (New d eo) = Map.empty" "envOverride (New d eo) = eo" "closed (New d eo) = False"
  "calls (New d eo) = [CacheStart]"
  by (simp_all add: New_def new_def Let_def)

lemmas run_Get =
  Get_def Let_def TrimPrefix_def splitField_def numeral_2_eq_2 cache_Get_def createLoader_def

subsection \<open>Construction: the effective TTL\<close>

text \<open>
  C5, as the claim states it, fails on a negative duration: \<open>-1\<close> is neither zero nor
  between zero and the floor, and \<^verbatim>\<open>New\<close> does not keep it.
\<close>

theorem New_negative_ttl_counterexample:
  "(-1::int) \<noteq> 0 \<and> \<not> (0 < (-1::int) \<and> (-1::int) < MinimumCacheTTL) \<and>
   ttl (New (-1) False) \<noteq> -1 \<and> ttl (New (-1) False) = MinimumCacheTTL"
  by (simp add: New_def new_def Let_def MinimumCacheTTL_def Second_def)

text \<open>
  C5, amended: a requested TTL of zero gives the default of five minutes; any other TTL
  below the floor of thirty seconds, a negative one included, gives the floor; a TTL of
  at least the floor is kept.
\<close>

theorem New_ttl:
  "ttl (New d eo) =
     (if d = 0 then DefaultCacheTTL else if d < MinimumCacheTTL then MinimumCacheTTL else d) \<and>
   DefaultCacheTTL = 5 * 60 * 1000000000 \<and> MinimumCacheTTL = 30 * 1000000000"
  by (simp add: New_def new_def Let_def DefaultCacheTTL_def MinimumCacheTTL_def
      Minute_def Second_def)

subsection \<open>Splitting the path\<close>

text \<open>
  When the override does not answer, the first call that \<^verbatim>\<open>Get\<close> makes is the lookup
  of the document key in the cache: the key is part 0 of the split of the path without
  its leading \<^verbatim>\<open>secret/\<close>.
\<close>

lemma Get_cache_key:
  assumes "\<not> envOverride c \<or>
      getenv w (ToUpper (unicodeUpper w) (replacer_Replace (TrimPrefix p ''secret/''))) = []"
  shows "\<exists>rest. calls (snd (Get c w p)) =
           calls c @ CacheGet (fst (splitField (TrimPrefix p ''secret/''))) # rest"
proof -
  obtain key fieldName where sp: "splitField (TrimPrefix p ''secret/'') = (key, fieldName)"
    by (cases "splitField (TrimPrefix p ''secret/'')")
  have cg: "\<exists>rest. calls (snd (cache_Get c w key)) = calls c @ CacheGet key # rest"
    by (auto simp add: cache_Get_def createLoader_def Let_def split: option.splits sum.splits)
  obtain v errBucket c1 where r: "cache_Get c w key = ((v, errBucket), c1)"
    by (metis surj_pair)
  have "snd (Get c w p) = c1"
    using assms sp r
    by (cases "envOverride c") (auto simp add: Get_def Let_def split: option.splits)
  with cg r sp show ?thesis by simp
qed

text \<open>
  C3, as the claim states it, fails on a path that begins with \<^verbatim>\<open>secret/\<close>: line 182
  removes that prefix before line 191 splits, so for the path \<^verbatim>\<open>secret/test/app#user\<close>,
  which is \<open>X#Y\<close> with \<open>X\<close> the string \<^verbatim>\<open>secret/test/app\<close>, the document key that \<^verbatim>\<open>Get\<close>
  looks up is \<^verbatim>\<open>test/app\<close> and not \<open>X\<close>.
\<close>

theorem Get_splits_first_delimiter_counterexample:
  "CHR ''#'' \<notin> set ''secret/test/app'' \<and>
   splitField (TrimPrefix (''secret/test/app'' @ CHR ''#'' # ''user'') ''secret/'') =
     (''test/app'', ''user'') \<and>
   ''test/app'' \<noteq> ''secret/test/app'' \<and>
   calls (snd (Get (New 0 False) test_world (''secret/test/app'' @ CHR ''#'' # ''user''))) =
     [CacheStart, CacheGet ''test/app'', KVGet ''test/app'', CacheSet ''test/app''] \<and>
   fst (Get (New 0 False) test_world (''secret/test/app'' @ CHR ''#'' # ''user'')) =
     Inr \<lparr>val = AString ''fake-user''\<rparr>"
  by (simp add: run_Get New_fields test_world_def test_vault_def test_app_def)

text \<open>
  C3, amended: path resolution never fails (the split always has a part 0) and splits on
  the first \<open>#\<close> only. For every path without \<open>#\<close> the field name is empty. For every
  path \<open>X#Y\<close> with no \<open>#\<close> in \<open>X\<close> the field name is \<open>Y\<close>, whatever \<open>Y\<close> holds, and the
  document key is \<open>X\<close> with one leading \<^verbatim>\<open>secret/\<close> removed: \<open>X\<close> itself when \<open>X\<close> does
  not begin with \<^verbatim>\<open>secret/\<close>. That key is the one \<^verbatim>\<open>Get\<close> asks the cache for.
\<close>

theorem Get_splits_first_delimiter:
  "0 < length (SplitN (TrimPrefix p ''secret/'') (CHR ''#'') 2) \<and>
   (CHR ''#'' \<notin> set p \<longrightarrow>
      splitField (TrimPrefix p ''secret/'') = (TrimPrefix p ''secret/'', [])) \<and>
   (CHR ''#'' \<notin> set X \<longrightarrow>
      splitField (TrimPrefix (X @ CHR ''#'' # Y) ''secret/'') = (TrimPrefix X ''secret/'', Y)) \<and>
   (CHR ''#'' \<notin> set X \<and> \<not> prefix ''secret/'' X \<longrightarrow>
      splitField (TrimPrefix (X @ CHR ''#'' # Y) ''secret/'') = (X, Y)) \<and>
   (\<not> envOverride c \<or>
      getenv w (ToUpper (unicodeUpper w) (replacer_Replace (TrimPrefix p ''secret/''))) = [] \<longrightarrow>
      (\<exists>rest. calls (snd (Get c w p)) =
         calls c @ CacheGet (fst (splitField (TrimPrefix p ''secret/''))) # rest))"
proof -
  have total: "0 < length (SplitN (TrimPrefix p ''secret/'') (CHR ''#'') 2)"
    by (simp add: SplitN_2_length)
  have none: "splitField (TrimPrefix p ''secret/'') = (TrimPrefix p ''secret/'', [])"
    if "CHR ''#'' \<notin> set p"
  proof -
    from that have "CHR ''#'' \<notin> set (TrimPrefix p ''secret/'')"
      by (auto simp add: TrimPrefix_def dest: in_set_dropD)
    then show ?thesis by (rule splitField_absent)
  qed
  have first: "splitField (TrimPrefix (X @ CHR ''#'' # Y) ''secret/'') = (TrimPrefix X ''secret/'', Y)"
    if "CHR ''#'' \<notin> set X"
    using that by (rule splitField_TrimPrefix)
  have plain: "splitField (TrimPrefix (X @ CHR ''#'' # Y) ''secret/'') = (X, Y)"
    if "CHR ''#'' \<notin> set X" and "\<not> prefix ''secret/'' X"
    using that first by (simp add: TrimPrefix_no_prefix)
  from total none first plain Get_cache_key [of c w p] show ?thesis by blast
qed

theorem Get_splits_first_delimiter_witness:
  "CHR ''#'' \<notin> set ''test/app'' \<and>
   splitField (TrimPrefix ''test/app'' ''secret/'') = (''test/app'', []) \<and>
   CHR ''#'' \<notin> set ''secret/a/b'' \<and>
   splitField (TrimPrefix (''secret/a/b'' @ CHR ''#'' # ''c#d'') ''secret/'') = (''a/b'', ''c#d'') \<and>
   \<not> prefix ''secret/'' ''a/b'' \<and>
   splitField (TrimPrefix (''a/b'' @ CHR ''#'' # ''c#d'') ''secret/'') = (''a/b'', ''c#d'') \<and>
   \<not> envOverride (New 0 False) \<and>
   calls (snd (Get (New 0 False) test_world ''test/app'')) =
     [CacheStart, CacheGet ''test/app'', KVGet ''test/app'', CacheSet ''test/app'']"
proof -
  have c: "calls (snd (Get (New 0 False) test_world ''test/app'')) =
     [CacheStart, CacheGet ''test/app'', KVGet ''test/app'', CacheSet ''test/app'']"
    by (simp add: run_Get New_fields test_world_def test_vault_def)
  have t: "TrimPrefix ''secret/a/b'' ''secret/'' = ''a/b''"
    by (simp add: TrimPrefix_def)
  show ?thesis
    using Get_splits_first_delimiter [of "''test/app''" "''secret/a/b''" "''c#d''" "New 0 False" test_world]
      Get_splits_first_delimiter [of "''test/app''" "''a/b''" "''c#d''" "New 0 False" test_world] c t
    by (simp add: New_fields TrimPrefix_def)
qed

subsection \<open>The environment override\<close>

text \<open>
  C1: with the override on and a non-empty value \<open>s\<close> in the variable named after the
  path (the path without a leading \<^verbatim>\<open>secret/\<close>, with \<open>/\<close> and \<open>#\<close> replaced by \<open>_\<close>,
  in upper case), \<^verbatim>\<open>Get\<close> returns a Value wrapping \<open>s\<close> and no error, and leaves the
  client as it was: no call on the cache or on Vault is made, whatever the cache holds
  and whatever Vault would have answered.
\<close>

theorem Get_env_override:
  assumes "envOverride c"
    and "getenv w (ToUpper (unicodeUpper w) (replacer_Replace (TrimPrefix p ''secret/''))) = s"
    and "s \<noteq> []"
  shows "Get c w p = (Inr \<lparr>val = AString s\<rparr>, c) \<and>
         calls (snd (Get c w p)) = calls c \<and>
         (\<forall>vault stale. Get c (w\<lparr>kvGet := vault, expired := stale\<rparr>) p =
            (Inr \<lparr>val = AString s\<rparr>, c))"
  using assms by (simp add: Get_def Let_def)

theorem Get_env_override_witness:
  "envOverride (New 0 True) \<and>
   getenv vault_down
     (ToUpper (unicodeUpper vault_down) (replacer_Replace (TrimPrefix ''test/app#user'' ''secret/'')))
     = ''some-other-user'' \<and>
   kvGet vault_down ''test/app'' = Inl ''connection refused'' \<and>
   Get (New 0 True) vault_down ''test/app#user'' =
     (Inr \<lparr>val = AString ''some-other-user''\<rparr>, New 0 True)"
proof -
  have k: "ToUpper (\<lambda>s. s) (replacer_Replace ''test/app#user'') = ''TEST_APP_USER''"
    by code_simp
  have e: "getenv vault_down
     (ToUpper (unicodeUpper vault_down) (replacer_Replace (TrimPrefix ''test/app#user'' ''secret/'')))
     = ''some-other-user''"
    by (simp add: vault_down_def TrimPrefix_def k)
  have o: "envOverride (New 0 True)" by (simp add: New_fields)
  show ?thesis
    using Get_env_override [OF o e] o e by (simp add: vault_down_def)
qed

subsection \<open>Projecting a field\<close>

text \<open>
  When the override does not answer, \<^verbatim>\<open>Get\<close> is the lookup in the cache followed by
  the projection of lines 209 to 217.
\<close>

lemma Get_no_override:
  assumes "\<not> envOverride c \<or>
      getenv w (ToUpper (unicodeUpper w) (replacer_Replace (TrimPrefix p ''secret/''))) = []"
    and "splitField (TrimPrefix p ''secret/'') = (key, fieldName)"
    and "cache_Get c w key = ((Some d, None), c1)"
  shows "Get c w p =
     (if fieldName \<noteq> [] then
        (case d fieldName of
           Some f \<Rightarrow> (Inr \<lparr>val = f\<rparr>, c1)
         | None \<Rightarrow> (Inl (FieldNotFound fieldName key), c1))
      else (Inr \<lparr>val = AMap d\<rparr>, c1))"
  using assms by (cases "envOverride c") (simp_all add: Get_def Let_def)

lemma cache_Get_loaded:
  assumes "(\<not> expired w key \<and> cache c key = Some d) \<or>
      ((expired w key \<or> cache c key = None) \<and> kvGet w key = Inr d)"
  shows "\<exists>c1. cache_Get c w key = ((Some d, None), c1)"
  using assms cache_Get_hit cache_Get_load by blast

text \<open>
  C7: for a path with a non-empty field name whose document loads (from the cache, or
  from Vault on a miss), a field that the document lacks makes \<^verbatim>\<open>Get\<close> fail with the
  field-not-found error, whose message holds the field name and the document key, and
  a field that the document has is returned as it is, with no error. The document is
  only loaded when the environment override does not answer.
\<close>

theorem Get_field:
  assumes no_override: "\<not> envOverride c \<or>
      getenv w (ToUpper (unicodeUpper w) (replacer_Replace (TrimPrefix p ''secret/''))) = []"
    and split: "splitField (TrimPrefix p ''secret/'') = (key, fieldName)"
    and field: "fieldName \<noteq> []"
    and loaded: "(\<not> expired w key \<and> cache c key = Some d) \<or>
      ((expired w key \<or> cache c key = None) \<and> kvGet w key = Inr d)"
  shows "(d fieldName = None \<longrightarrow>
           fst (Get c w p) = Inl (FieldNotFound fieldName key) \<and>
           Error (FieldNotFound fieldName key) =
             ''field '' @ [CHR 0x27] @ fieldName @ [CHR 0x27] @ '' on path '' @
             [CHR 0x27] @ key @ [CHR 0x27] @ '' was not found'') \<and>
         (\<forall>f. d fieldName = Some f \<longrightarrow> fst (Get c w p) = Inr \<lparr>val = f\<rparr>)"
proof -
  from loaded obtain c1 where "cache_Get c w key = ((Some d, None), c1)"
    using cache_Get_loaded by blast
  with no_override split field have "Get c w p =
      (case d fieldName of
         Some f \<Rightarrow> (Inr \<lparr>val = f\<rparr>, c1)
       | None \<Rightarrow> (Inl (FieldNotFound fieldName key), c1))"
    by (simp add: Get_no_override)
  then show ?thesis by (simp add: apostrophe_def split: option.splits)
qed

theorem Get_field_witness:
  "splitField (TrimPrefix ''test/app#pass'' ''secret/'') = (''test/app'', ''pass'') \<and>
   kvGet test_world ''test/app'' = Inr test_app \<and>
   test_app ''pass'' = None \<and>
   fst (Get (New 0 False) test_world ''test/app#pass'') =
     Inl (FieldNotFound ''pass'' ''test/app'') \<and>
   Error (FieldNotFound ''pass'' ''test/app'') =
     ''field '' @ [CHR 0x27] @ ''pass'' @ [CHR 0x27] @ '' on path '' @
     [CHR 0x27] @ ''test/app'' @ [CHR 0x27] @ '' was not found'' \<and>
   splitField (TrimPrefix ''secret/test/app#user'' ''secret/'') = (''test/app'', ''user'') \<and>
   test_app ''user'' = Some (AString ''fake-user'') \<and>
   fst (Get (New 0 False) test_world ''secret/test/app#user'') = Inr \<lparr>val = AString ''fake-user''\<rparr>"
proof -
  have s1: "splitField (TrimPrefix ''test/app#pass'' ''secret/'') = (''test/app'', ''pass'')"
    by (simp add: TrimPrefix_def splitField_def numeral_2_eq_2)
  have s2: "splitField (TrimPrefix ''secret/test/app#user'' ''secret/'') = (''test/app'', ''user'')"
    by (simp add: TrimPrefix_def splitField_def numeral_2_eq_2)
  have k: "kvGet test_world ''test/app'' = Inr test_app"
    by (simp add: test_world_def test_vault_def)
  have n: "\<not> envOverride (New 0 False) \<or> getenv test_world (ToUpper (unicodeUpper test_world) (replacer_Replace (TrimPrefix q ''secret/''))) = []" for q
    by (simp add: New_fields)
  have l: "(\<not> expired test_world ''test/app'' \<and> cache (New 0 False) ''test/app'' = Some test_app) \<or>
      ((expired test_world ''test/app'' \<or> cache (New 0 False) ''test/app'' = None) \<and>
       kvGet test_world ''test/app'' = Inr test_app)"
    by (simp add: New_fields k)
  have a: "test_app ''pass'' = None" and b: "test_app ''user'' = Some (AString ''fake-user'')"
    by (simp_all add: test_app_def)
  show ?thesis
    using Get_field [OF n s1 _ l] Get_field [OF n s2 _ l] s1 s2 k a b by simp
qed

subsection \<open>GetOrDefault\<close>

text \<open>
  C4: \<^verbatim>\<open>GetOrDefault\<close> has no error in its result. When \<^verbatim>\<open>Get\<close> fails, whatever the
  error, it returns a Value wrapping the fallback string, and false; when \<^verbatim>\<open>Get\<close>
  succeeds, it returns the Value of \<^verbatim>\<open>Get\<close>, and true. The client is left as \<^verbatim>\<open>Get\<close>
  left it.
\<close>

theorem GetOrDefault_absorbs:
  "(\<forall>e. fst (Get c w path) = Inl e \<longrightarrow>
      fst (GetOrDefault c w path fallback) = (\<lparr>val = AString fallback\<rparr>, False)) \<and>
   (\<forall>v. fst (Get c w path) = Inr v \<longrightarrow>
      fst (GetOrDefault c w path fallback) = (v, True)) \<and>
   snd (GetOrDefault c w path fallback) = snd (Get c w path)"
  by (cases "Get c w path") (auto simp add: GetOrDefault_def split: sum.splits)

theorem GetOrDefault_absorbs_witness:
  "fst (Get (New 0 False) test_world ''not/here#never'') = Inl (VaultError ''secret not found'') \<and>
   fst (GetOrDefault (New 0 False) test_world ''not/here#never'' ''foo'') =
     (\<lparr>val = AString ''foo''\<rparr>, False) \<and>
   fst (Get (New 0 False) test_world ''test/app#user'') = Inr \<lparr>val = AString ''fake-user''\<rparr> \<and>
   fst (GetOrDefault (New 0 False) test_world ''test/app#user'' ''foo'') =
     (\<lparr>val = AString ''fake-user''\<rparr>, True)"
proof -
  have g1: "fst (Get (New 0 False) test_world ''not/here#never'') =
      Inl (VaultError ''secret not found'')"
    by (simp add: run_Get New_fields test_world_def test_vault_def)
  have g2: "fst (Get (New 0 False) test_world ''test/app#user'') =
      Inr \<lparr>val = AString ''fake-user''\<rparr>"
    by (simp add: run_Get New_fields test_world_def test_vault_def test_app_def)
  show ?thesis
    using GetOrDefault_absorbs [of "New 0 False" test_world "''not/here#never''" "''foo''"]
      GetOrDefault_absorbs [of "New 0 False" test_world "''test/app#user''" "''foo''"] g1 g2
    by simp
qed

subsection \<open>Close\<close>

lemma Close_closed: "closed c \<Longrightarrow> Close c = c"
  by (simp add: Close_def)

lemma closed_Close: "closed (Close c)"
  by (simp add: Close_def)

lemma Close_iterate: "(Close ^^ Suc n) c = Close c"
  by (induction n) (simp_all add: Close_closed closed_Close)

text \<open>
  C8: on a client that is not closed, \<^verbatim>\<open>Close\<close> stops the cache, closes the Vault
  client and sets the flag; on a closed client it changes nothing. So closing twice, or
  any number of times, leaves the client as closing once does, and the cache has been
  stopped and the Vault client closed exactly once more than before.
\<close>

theorem Close_idempotent:
  "Close (Close c) = Close c \<and>
   closed (Close c) \<and>
   (\<forall>n. (Close ^^ Suc n) c = Close c) \<and>
   (closed c \<longrightarrow> Close c = c) \<and>
   (\<not> closed c \<longrightarrow>
      Close c = c\<lparr>closed := True, calls := calls c @ [CacheStop, ClientClose]\<rparr> \<and>
      count_list (calls (Close (Close c))) CacheStop = count_list (calls c) CacheStop + 1 \<and>
      count_list (calls (Close (Close c))) ClientClose = count_list (calls c) ClientClose + 1)"
proof -
  have twice: "Close (Close c) = Close c"
    by (simp add: Close_closed closed_Close)
  have once: "\<not> closed c \<Longrightarrow>
      Close c = c\<lparr>closed := True, calls := calls c @ [CacheStop, ClientClose]\<rparr>"
    by (simp add: Close_def)
  have "\<not> closed c \<Longrightarrow> count_list (calls (Close c)) CacheStop = count_list (calls c) CacheStop + 1"
    and "\<not> closed c \<Longrightarrow> count_list (calls (Close c)) ClientClose = count_list (calls c) ClientClose + 1"
    by (simp_all add: once)
  with twice once show ?thesis
    using Close_iterate Close_closed closed_Close by simp
qed

theorem Close_idempotent_witness:
  "\<not> closed (New 0 False) \<and>
   calls (Close (New 0 False)) = [CacheStart, CacheStop, ClientClose] \<and>
   Close (Close (New 0 False)) = Close (New 0 False) \<and>
   calls (Close (Close (New 0 False))) = [CacheStart, CacheStop, ClientClose] \<and>
   count_list (calls (Close (Close (New 0 False)))) CacheStop = 1 \<and>
   count_list (calls (Close (Close (New 0 False)))) ClientClose = 1 \<and>
   closed (Close (New 0 False)) \<and>
   Close (Close (Close (New 0 False))) = Close (Close (New 0 False))"
  using Close_idempotent [of "New 0 False"] Close_idempotent [of "Close (New 0 False)"]
  by (simp add: New_fields)

subsection \<open>The polling loop of Watch\<close>

text \<open>The loop leaves only on the stop signal, whatever \<^verbatim>\<open>Get\<close> returns.\<close>

lemma stopped_Watch_tick: "stopped (Watch_tick comparator path w s) = stopped s"
  by (simp add: Watch_tick_def split: prod.splits sum.splits)

lemma stopped_Watch_loop:
  "StopChan \<notin> set es \<Longrightarrow> stopped (Watch_loop comparator path es s) = stopped s"
proof (induction es arbitrary: s)
  case Nil
  then show ?case by simp
next
  case (Cons e es)
  then show ?case by (cases e) (simp_all add: stopped_Watch_tick)
qed

text \<open>
  C6: the loop runs the events in their order; with no event left the state is as it
  was, and the stop signal ends the loop. In an iteration whose \<^verbatim>\<open>Get\<close> fails, the
  baseline and the list of callback invocations stay as they are, the loop is not
  stopped, and it goes on with the next event. In an iteration whose \<^verbatim>\<open>Get\<close> succeeds
  with a value, the callback is invoked with that value exactly when the comparator
  holds of the baseline and the value, and the value becomes the baseline in both cases.
  As long as no stop signal arrives, the loop is not stopped.
\<close>

theorem Watch_loop_cycle:
  "Watch_loop comparator path [] s = s \<and>
   Watch_loop comparator path (StopChan # es) s = s\<lparr>stopped := True\<rparr> \<and>
   (\<forall>e c1. Get (client s) w path = (Inl e, c1) \<longrightarrow>
      Watch_tick comparator path w s = s\<lparr>client := c1\<rparr> \<and>
      Watch_loop comparator path [TimeAfter w] s = s\<lparr>client := c1\<rparr> \<and>
      Watch_loop comparator path (TimeAfter w # es) s =
        Watch_loop comparator path es (s\<lparr>client := c1\<rparr>)) \<and>
   (\<forall>v c1. Get (client s) w path = (Inr v, c1) \<longrightarrow>
      Watch_tick comparator path w s =
        s\<lparr>oldValue := v,
          fired := (if comparator (oldValue s) v then fired s @ [v] else fired s),
          client := c1\<rparr> \<and>
      Watch_loop comparator path [TimeAfter w] s =
        s\<lparr>oldValue := v,
          fired := (if comparator (oldValue s) v then fired s @ [v] else fired s),
          client := c1\<rparr> \<and>
      Watch_loop comparator path (TimeAfter w # es) s =
        Watch_loop comparator path es
          (s\<lparr>oldValue := v,
             fired := (if comparator (oldValue s) v then fired s @ [v] else fired s),
             client := c1\<rparr>)) \<and>
   (StopChan \<notin> set es \<longrightarrow> stopped (Watch_loop comparator path es s) = stopped s)"
  by (auto simp add: Watch_tick_def stopped_Watch_loop)

lemma Watch_init_test:
  "Watch_init (new Second False) test_world ''test/app#password'' =
     \<lparr>oldValue = \<lparr>val = AString ''fake-password''\<rparr>, fired = [], stopped = False,
      client = \<lparr>cache = [''test/app'' \<mapsto> test_app], envOverride = False, ttl = Second,
                closed = False,
                calls = [CacheStart, CacheGet ''test/app'', KVGet ''test/app'',
                         CacheSet ''test/app'']\<rparr>\<rparr>"
  by (simp add: Watch_init_def run_Get new_def test_world_def test_vault_def test_app_def)

theorem Watch_loop_cycle_witness:
  "oldValue (Watch (new Second False) test_world ''test/app#password'' differs []) =
     \<lparr>val = AString ''fake-password''\<rparr> \<and>
   fst (Get (client (Watch_init (new Second False) test_world ''test/app#password''))
          vault_down ''test/app#password'') = Inl (VaultError ''connection refused'') \<and>
   oldValue (Watch (new Second False) test_world ''test/app#password'' differs
      [TimeAfter vault_down]) = \<lparr>val = AString ''fake-password''\<rparr> \<and>
   fired (Watch (new Second False) test_world ''test/app#password'' differs
      [TimeAfter vault_down]) = [] \<and>
   \<not> stopped (Watch (new Second False) test_world ''test/app#password'' differs
      [TimeAfter vault_down]) \<and>
   oldValue (Watch (new Second False) test_world ''test/app#password'' differs
      [TimeAfter vault_down, TimeAfter changed_world]) =
     \<lparr>val = AString ''password is changed''\<rparr> \<and>
   fired (Watch (new Second False) test_world ''test/app#password'' differs
      [TimeAfter vault_down, TimeAfter changed_world]) =
     [\<lparr>val = AString ''password is changed''\<rparr>] \<and>
   fired (Watch (new Second False) test_world ''test/app#password'' differs
      [TimeAfter vault_down, TimeAfter changed_world, TimeAfter changed_world]) =
     [\<lparr>val = AString ''password is changed''\<rparr>] \<and>
   \<not> stopped (Watch (new Second False) test_world ''test/app#password'' differs
      [TimeAfter vault_down, TimeAfter changed_world, TimeAfter changed_world]) \<and>
   fired (Watch (new Second False) test_world ''test/app#password'' differs
      [TimeAfter test_world]) = [] \<and>
   oldValue (Watch (new Second False) test_world ''test/app#password'' differs
      [TimeAfter test_world]) = \<lparr>val = AString ''fake-password''\<rparr> \<and>
   stopped (Watch (new Second False) test_world ''test/app#password'' differs
      [TimeAfter vault_down, StopChan, TimeAfter changed_world]) \<and>
   fired (Watch (new Second False) test_world ''test/app#password'' differs
      [TimeAfter vault_down, StopChan, TimeAfter changed_world]) = []"
proof -
  let ?p = "''test/app#password''"
  let ?init = "Watch_init (new Second False) test_world ?p"
  let ?ca = "\<lparr>cache = [''test/app'' \<mapsto> test_app], envOverride = False, ttl = Second,
      closed = False,
      calls = [CacheStart, CacheGet ''test/app'', KVGet ''test/app'', CacheSet ''test/app'']\<rparr>"
  let ?cb = "?ca\<lparr>calls := calls ?ca @ [CacheGet ''test/app'', KVGet ''test/app'']\<rparr>"
  let ?cc = "?cb\<lparr>cache := (cache ?cb)(''test/app'' \<mapsto> test_app_changed),
      calls := calls ?cb @ [CacheGet ''test/app'', KVGet ''test/app'', CacheSet ''test/app'']\<rparr>"
  let ?new = "\<lparr>val = AString ''password is changed''\<rparr>"
  let ?old = "\<lparr>val = AString ''fake-password''\<rparr>"
  have s: "?init = \<lparr>oldValue = ?old, fired = [], stopped = False, client = ?ca\<rparr>"
    by (rule Watch_init_test)
  have g1: "Get ?ca vault_down ?p = (Inl (VaultError ''connection refused''), ?cb)"
    by (simp add: run_Get vault_down_def)
  have g2: "Get ?cb changed_world ?p = (Inr ?new, ?cc)"
    by (simp add: run_Get changed_world_def test_app_changed_def)
  obtain c3 where g3: "Get ?cc changed_world ?p = (Inr ?new, c3)"
    by (simp add: run_Get changed_world_def test_app_changed_def)
  obtain c4 where g4: "Get ?ca test_world ?p = (Inr ?old, c4)"
    by (simp add: run_Get test_world_def test_app_def)
  have d1: "differs ?old ?new" and d2: "\<not> differs ?old ?old" and d3: "\<not> differs ?new ?new"
    by (simp_all add: differs_def String_def)
  let ?sa = "\<lparr>oldValue = ?old, fired = [], stopped = False, client = ?ca\<rparr>"
  let ?sb = "?sa\<lparr>client := ?cb\<rparr>"
  let ?sc = "?sb\<lparr>oldValue := ?new, fired := [?new], client := ?cc\<rparr>"
  have l1: "Watch_loop differs ?p [TimeAfter vault_down] ?sa = ?sb"
    and l1': "Watch_loop differs ?p (TimeAfter vault_down # es) ?sa = Watch_loop differs ?p es ?sb" for es
    using Watch_loop_cycle [of differs ?p ?sa es vault_down] g1 by simp_all
  have l2: "Watch_loop differs ?p [TimeAfter changed_world] ?sb = ?sc"
    and l2': "Watch_loop differs ?p (TimeAfter changed_world # es) ?sb = Watch_loop differs ?p es ?sc" for es
    using Watch_loop_cycle [of differs ?p ?sb es changed_world] g2 d1 by simp_all
  have l3: "Watch_loop differs ?p [TimeAfter changed_world] ?sc = ?sc\<lparr>client := c3\<rparr>"
    using Watch_loop_cycle [of differs ?p ?sc "[]" changed_world] g3 d3 by simp
  have l4: "Watch_loop differs ?p [TimeAfter test_world] ?sa = ?sa\<lparr>client := c4\<rparr>"
    using Watch_loop_cycle [of differs ?p ?sa "[]" test_world] g4 d2 by simp
  have l5: "Watch_loop differs ?p (StopChan # es) ?sb = ?sb\<lparr>stopped := True\<rparr>" for es
    using Watch_loop_cycle [of differs ?p ?sb es] by simp
  have l0: "Watch_loop differs ?p [] ?sa = ?sa"
    using Watch_loop_cycle [of differs ?p ?sa] by simp
  have gs: "fst (Get (client ?init) vault_down ?p) = Inl (VaultError ''connection refused'')"
    using g1 by (simp only: s) simp
  show ?thesis
    unfolding Watch_def
    using gs by (simp only: s l0 l1 l1' l2 l2' l3 l4 l5) simp
qed

subsection \<open>Data\<close>

text \<open>
  C2: the comment on \<^verbatim>\<open>Data\<close> (lines 109 and 110) says that it only works when the
  path had no field name, and the claim says the same: on a Value wrapping a single
  field \<^verbatim>\<open>Data\<close> returns \<open>ok = false\<close>. The code is a type assertion on the raw value
  and does not know the path. The field \<open>m\<close> of the document \<^verbatim>\<open>test/types\<close> is a JSON
  object; the Value that \<^verbatim>\<open>Get\<close> returns for the path \<^verbatim>\<open>test/types#m\<close> wraps that
  single field, and \<^verbatim>\<open>Data\<close> returns the field's map and \<open>ok = true\<close> on it.
\<close>

theorem Data_on_map_field:
  "splitField (TrimPrefix ''test/types#m'' ''secret/'') = (''test/types'', ''m'') \<and>
   fst (Get (New 0 False) test_world ''test/types#m'') =
     Inr \<lparr>val = AMap [''three'' \<mapsto> AString ''tres'']\<rparr> \<and>
   Data \<lparr>val = AMap [''three'' \<mapsto> AString ''tres'']\<rparr> =
     ([''three'' \<mapsto> AString ''tres''], True)"
proof -
  have "fst (Get (New 0 False) test_world ''test/types#m'') =
      Inr \<lparr>val = AMap [''three'' \<mapsto> AString ''tres'']\<rparr>"
    by (simp add: run_Get New_fields test_world_def test_vault_def test_types_def)
  then show ?thesis
    by (simp add: Data_def TrimPrefix_def splitField_def numeral_2_eq_2)
qed

subsection \<open>The prefix secret/\<close>

text \<open>
  Two paths with the same environment variable, document key and field name get the
  same answer: \<^verbatim>\<open>Get\<close> reads its argument only through line 182.
\<close>

lemma Get_cong_TrimPrefix:
  "TrimPrefix p ''secret/'' = TrimPrefix q ''secret/'' \<Longrightarrow> Get c w p = Get c w q"
  by (simp add: Get_def)

lemma Get_cong_splitField:
  assumes "\<not> envOverride c \<or>
      getenv w (ToUpper (unicodeUpper w) (replacer_Replace (TrimPrefix p ''secret/''))) =
      getenv w (ToUpper (unicodeUpper w) (replacer_Replace (TrimPrefix q ''secret/'')))"
    and "splitField (TrimPrefix p ''secret/'') = splitField (TrimPrefix q ''secret/'')"
  shows "Get c w p = Get c w q"
  using assms by (cases "envOverride c") (simp_all add: Get_def Let_def)

text \<open>
  C9, as the claim states it, fails on a path that itself begins with \<^verbatim>\<open>secret/\<close>:
  line 182 removes the prefix once, so \<^verbatim>\<open>secret/secret/test/app\<close> is looked up under
  the key \<^verbatim>\<open>secret/test/app\<close>, which Vault does not have, and \<^verbatim>\<open>secret/test/app\<close>
  under \<^verbatim>\<open>test/app\<close>, which it has.
\<close>

theorem Get_secret_prefix_counterexample:
  "fst (Get (New 0 False) test_world (''secret/'' @ ''secret/test/app'')) =
     Inl (VaultError ''secret not found'') \<and>
   fst (Get (New 0 False) test_world ''secret/test/app'') = Inr \<lparr>val = AMap test_app\<rparr> \<and>
   Get (New 0 False) test_world (''secret/'' @ ''secret/test/app'') \<noteq>
     Get (New 0 False) test_world ''secret/test/app''"
proof -
  have a: "fst (Get (New 0 False) test_world (''secret/'' @ ''secret/test/app'')) =
     Inl (VaultError ''secret not found'')"
    by (simp add: run_Get New_fields test_world_def test_vault_def)
  have b: "fst (Get (New 0 False) test_world ''secret/test/app'') = Inr \<lparr>val = AMap test_app\<rparr>"
    by (simp add: run_Get New_fields test_world_def test_vault_def)
  from a b have "fst (Get (New 0 False) test_world (''secret/'' @ ''secret/test/app'')) \<noteq>
      fst (Get (New 0 False) test_world ''secret/test/app'')"
    by simp
  then have "Get (New 0 False) test_world (''secret/'' @ ''secret/test/app'') \<noteq>
      Get (New 0 False) test_world ''secret/test/app''"
    by metis
  with a b show ?thesis by blast
qed

text \<open>
  C9, amended: for every path \<open>p\<close> that does not itself begin with \<^verbatim>\<open>secret/\<close>,
  \<^verbatim>\<open>Get\<close> on \<^verbatim>\<open>secret/\<close> followed by \<open>p\<close> returns what \<^verbatim>\<open>Get\<close> on \<open>p\<close> returns and
  leaves the client in the same state: both calls work on the path \<open>p\<close>, from which the
  environment variable's name, the document key and the field name are computed.
\<close>

theorem Get_secret_prefix:
  assumes "\<not> prefix ''secret/'' p"
  shows "Get c w (''secret/'' @ p) = Get c w p \<and>
         TrimPrefix (''secret/'' @ p) ''secret/'' = p \<and> TrimPrefix p ''secret/'' = p"
proof -
  have "TrimPrefix (''secret/'' @ p) ''secret/'' = p"
    by (rule TrimPrefix_append)
  moreover from assms have "TrimPrefix p ''secret/'' = p"
    by (rule TrimPrefix_no_prefix)
  ultimately show ?thesis
    using Get_cong_TrimPrefix [of "''secret/'' @ p" p] by simp
qed

theorem Get_secret_prefix_witness:
  "\<not> prefix ''secret/'' ''test/app#user'' \<and>
   Get (New 0 False) test_world (''secret/'' @ ''test/app#user'') =
     Get (New 0 False) test_world ''test/app#user'' \<and>
   fst (Get (New 0 False) test_world (''secret/'' @ ''test/app#user'')) =
     Inr \<lparr>val = AString ''fake-user''\<rparr>"
proof -
  have n: "\<not> prefix ''secret/'' ''test/app#user''" by simp
  have "fst (Get (New 0 False) test_world ''test/app#user'') = Inr \<lparr>val = AString ''fake-user''\<rparr>"
    by (simp add: run_Get New_fields test_world_def test_vault_def test_app_def)
  with n show ?thesis
    using Get_secret_prefix [OF n, of "New 0 False" test_world] by simp
qed

subsection \<open>A trailing field delimiter\<close>

text \<open>
  C10, as the claim states it, fails when the override is on: the paths \<^verbatim>\<open>test/app#\<close>
  and \<^verbatim>\<open>test/app\<close> name the variables \<^verbatim>\<open>TEST_APP_\<close> and \<^verbatim>\<open>TEST_APP\<close>, and with
  only the first one set \<^verbatim>\<open>Get\<close> answers the first path from the environment and the
  second from Vault.
\<close>

theorem Get_trailing_delimiter_counterexample:
  "fst (Get (New 0 True) env_world (''test/app'' @ ''#'')) = Inr \<lparr>val = AString ''from-env''\<rparr> \<and>
   fst (Get (New 0 True) env_world ''test/app'') = Inr \<lparr>val = AMap test_app\<rparr>"
proof -
  have k1: "ToUpper (\<lambda>s. s) (replacer_Replace ''test/app#'') = ''TEST_APP_''"
    by code_simp
  have k2: "ToUpper (\<lambda>s. s) (replacer_Replace ''test/app'') = ''TEST_APP''"
    by code_simp
  have "fst (Get (New 0 True) env_world (''test/app'' @ ''#'')) =
      Inr \<lparr>val = AString ''from-env''\<rparr>"
    by (simp add: Get_def Let_def TrimPrefix_def New_fields env_world_def k1)
  moreover have "fst (Get (New 0 True) env_world ''test/app'') = Inr \<lparr>val = AMap test_app\<rparr>"
    by (simp add: run_Get New_fields env_world_def test_vault_def k2)
  ultimately show ?thesis by simp
qed

text \<open>
  C10, amended: for every document key \<open>X\<close> (a string without \<open>#\<close>), when the
  override is off, or the variables named after \<open>X#\<close> and after \<open>X\<close> hold the same
  value (as they do when both are unset), \<^verbatim>\<open>Get\<close> on \<open>X#\<close> returns what \<^verbatim>\<open>Get\<close> on
  \<open>X\<close> returns and leaves the client in the same state. The field name of \<open>X#\<close> is
  empty, so when the override does not answer, a document that loads is returned whole.
\<close>

theorem Get_trailing_delimiter:
  assumes key: "CHR ''#'' \<notin> set X"
    and same_env: "\<not> envOverride c \<or>
      getenv w (ToUpper (unicodeUpper w) (replacer_Replace (TrimPrefix (X @ ''#'') ''secret/''))) =
      getenv w (ToUpper (unicodeUpper w) (replacer_Replace (TrimPrefix X ''secret/'')))"
  shows "Get c w (X @ ''#'') = Get c w X \<and>
         splitField (TrimPrefix (X @ ''#'') ''secret/'') = (TrimPrefix X ''secret/'', []) \<and>
         (\<forall>d c1.
            (\<not> envOverride c \<or>
             getenv w (ToUpper (unicodeUpper w)
               (replacer_Replace (TrimPrefix (X @ ''#'') ''secret/''))) = []) \<and>
            cache_Get c w (TrimPrefix X ''secret/'') = ((Some d, None), c1) \<longrightarrow>
            Get c w (X @ ''#'') = (Inr \<lparr>val = AMap d\<rparr>, c1))"
proof -
  have s1: "splitField (TrimPrefix (X @ ''#'') ''secret/'') = (TrimPrefix X ''secret/'', [])"
    using splitField_TrimPrefix [OF key, of "[]"] by simp
  from key have "CHR ''#'' \<notin> set (TrimPrefix X ''secret/'')"
    by (auto simp add: TrimPrefix_def dest: in_set_dropD)
  then have s2: "splitField (TrimPrefix X ''secret/'') = (TrimPrefix X ''secret/'', [])"
    by (rule splitField_absent)
  from same_env s1 s2 have same: "Get c w (X @ ''#'') = Get c w X"
    by (simp add: Get_cong_splitField)
  have whole: "Get c w (X @ ''#'') = (Inr \<lparr>val = AMap d\<rparr>, c1)"
    if "\<not> envOverride c \<or>
        getenv w (ToUpper (unicodeUpper w)
          (replacer_Replace (TrimPrefix (X @ ''#'') ''secret/''))) = []"
      and "cache_Get c w (TrimPrefix X ''secret/'') = ((Some d, None), c1)" for d c1
    using Get_no_override [OF that(1) s1 that(2)] by simp
  from same s1 whole show ?thesis by blast
qed

theorem Get_trailing_delimiter_witness:
  "CHR ''#'' \<notin> set ''test/app'' \<and> \<not> envOverride (New 0 False) \<and>
   Get (New 0 False) test_world (''test/app'' @ ''#'') = Get (New 0 False) test_world ''test/app'' \<and>
   fst (Get (New 0 False) test_world (''test/app'' @ ''#'')) = Inr \<lparr>val = AMap test_app\<rparr>"
proof -
  have k: "CHR ''#'' \<notin> set ''test/app''" by simp
  have n: "\<not> envOverride (New 0 False) \<or>
      getenv test_world (ToUpper (unicodeUpper test_world)
         (replacer_Replace (TrimPrefix (''test/app'' @ ''#'') ''secret/''))) =
      getenv test_world (ToUpper (unicodeUpper test_world)
         (replacer_Replace (TrimPrefix ''test/app'' ''secret/'')))"
    by (simp add: New_fields)
  have g: "fst (Get (New 0 False) test_world ''test/app'') = Inr \<lparr>val = AMap test_app\<rparr>"
    by (simp add: run_Get New_fields test_world_def test_vault_def)
  show ?thesis
    using Get_trailing_delimiter [OF k n] k g by (simp add: New_fields)
qed

end
